theory Spec2Isabelle
  imports Main "HOL-Library.Sublist"
begin

section \<open>JavaScript values the bridge computes with\<close>

text \<open>
  The bridge (\<^verbatim>\<open>Bridge/src/languageService.ts\<close>) is TypeScript that runs as JavaScript.
  Its numbers are offsets, lengths and versions handed over by the editor: they are
  modelled as \<open>int\<close> (fractions, NaN and the loss of precision above \<open>2^53\<close> are outside
  the model). A string is a sequence of UTF-16 code units; the model takes the strings
  whose code units are below 256 (ASCII and Latin-1), one \<open>char\<close> per unit.

  A thrown exception is a value of \<open>error\<close>: \<open>TypeError\<close> is what JavaScript raises
  for a property access on \<open>undefined\<close>, \<open>LibraryError\<close> is whatever a call into the
  TypeScript compiler library, the language service or the file reader throws.
\<close>

datatype error = TypeError | LibraryError

text \<open>
  \<^verbatim>\<open>String.prototype.substring(start, end)\<close>: each argument is clamped to
  \<open>[0, length]\<close>, then the smaller one is the start.
\<close>

definition substring :: "string \<Rightarrow> int \<Rightarrow> int \<Rightarrow> string" where
  "substring s start end' =
     (let len = int (length s);
          finalStart = min (max start 0) len;
          finalEnd = min (max end' 0) len;
          from = min finalStart finalEnd;
          to = max finalStart finalEnd
      in take (nat (to - from)) (drop (nat from) s))"

text \<open>\<^verbatim>\<open>s.charAt(i)\<close> is the empty string out of range; \<^verbatim>\<open>s[i]\<close> is \<open>undefined\<close> there.\<close>

definition charAt :: "string \<Rightarrow> int \<Rightarrow> string" where
  "charAt s i = (if 0 \<le> i \<and> i < int (length s) then [s ! nat i] else [])"

definition index :: "string \<Rightarrow> int \<Rightarrow> string option" where
  "index s i = (if 0 \<le> i \<and> i < int (length s) then Some [s ! nat i] else None)"

text \<open>
  \<^verbatim>\<open>String.prototype.toUpperCase\<close> on code units below 256, by the Unicode case
  mappings ECMAScript prescribes (the special casings included): the result is a
  sequence of code units, which leaves Latin-1 for the micro sign and for y with
  diaeresis, and is two units long for the sharp s. Code units from 256 on are outside
  the model; among them the long s, the dotless i and the ligatures of f also have
  upper cases that begin with an ASCII letter.
\<close>

definition upperUnit :: "char \<Rightarrow> nat list" where
  "upperUnit c =
     (let n = (of_char c :: nat)
      in if 97 \<le> n \<and> n \<le> 122 then [n - 32]
         else if n = 181 then [924]
         else if n = 223 then [83, 83]
         else if (224 \<le> n \<and> n \<le> 246) \<or> (248 \<le> n \<and> n \<le> 254) then [n - 32]
         else if n = 255 then [376]
         else [n])"

definition toUpperCase :: "string \<Rightarrow> nat list" where
  "toUpperCase s = concat (map upperUnit s)"

definition units :: "string \<Rightarrow> nat list" where
  "units s = map of_char s"

text \<open>\<^verbatim>\<open>a <= b\<close> on strings compares code units lexicographically.\<close>

fun str_le :: "nat list \<Rightarrow> nat list \<Rightarrow> bool" where
  "str_le [] ys = True"
| "str_le (x # xs) [] = False"
| "str_le (x # xs) (y # ys) = (x < y \<or> (x = y \<and> str_le xs ys))"

text \<open>
  \<^verbatim>\<open>str.indexOf(searchString)\<close>: the smallest position at which \<open>searchString\<close>
  occurs, \<open>-1\<close> when there is none.
\<close>

fun indexOfFrom :: "string \<Rightarrow> string \<Rightarrow> int \<Rightarrow> int" where
  "indexOfFrom [] p k = (if p = [] then k else - 1)"
| "indexOfFrom (c # cs) p k =
     (if take (length p) (c # cs) = p then k else indexOfFrom cs p (k + 1))"

definition indexOf :: "string \<Rightarrow> string \<Rightarrow> int" where
  "indexOf str p = indexOfFrom str p 0"

section \<open>The TypeScript library and the file reader\<close>

text \<open>
  A change range, as the specification's data model gives it: the replaced span
  \<open>[spanStart, spanEnd)\<close> of the text before the edit and the length of what replaced it.
\<close>

record TextChangeRange =
  spanStart :: int
  spanEnd :: int
  newLength :: int

text \<open>
  What the bridge calls and this file does not define.
  \<^item> \<open>readFileContents\<close>: \<^verbatim>\<open>IO.readFile(filePath).contents()\<close>, which may throw;
  \<^item> \<open>parseLineStarts\<close>: \<^verbatim>\<open>TextUtilities.parseLineStarts\<close> on the content;
  \<^item> \<open>acceptsBounds\<close>: whether \<^verbatim>\<open>TextSpan.fromBounds(start, end)\<close> and the
    \<^verbatim>\<open>TextChangeRange\<close> constructor take these bounds or throw on them.
\<close>

record library =
  readFileContents :: "string \<Rightarrow> error + string"
  parseLineStarts :: "string \<Rightarrow> nat list"
  acceptsBounds :: "int \<Rightarrow> int \<Rightarrow> bool"

text \<open>
  Modelled from the spec: \<^verbatim>\<open>new TextChangeRange(TextSpan.fromBounds(start, end), n)\<close>
  belongs to the TypeScript library, which is not among the sources. An accepted call
  yields the record \<open>{spanStart, spanEnd, newLength}\<close> of the data model.
\<close>

definition newTextChangeRange :: "library \<Rightarrow> int \<Rightarrow> int \<Rightarrow> int \<Rightarrow> error + TextChangeRange" where
  "newTextChangeRange lib start end' n =
     (if acceptsBounds lib start end'
      then Inr \<lparr>spanStart = start, spanEnd = end', newLength = n\<rparr>
      else Inl LibraryError)"

text \<open>\<^verbatim>\<open>TextChangeRange.unchanged\<close>, the "no change" sentinel: the empty span, nothing new.\<close>

definition unchanged :: TextChangeRange where
  "unchanged = \<lparr>spanStart = 0, spanEnd = 0, newLength = 0\<rparr>"

text \<open>
  Modelled from the spec: \<^verbatim>\<open>TextChangeRange.collapseChangesAcrossMultipleVersions\<close>
  belongs to the TypeScript library, which is not among the sources. The specification
  asks for one merged range whose span covers every affected position of the oldest
  text of the window. The fold keeps the merged old span \<open>[oldStartN, oldEndN)\<close> and the
  end \<open>newEndN\<close> of what it became, and maps each later edit, whose span is in the
  coordinates of the text just before it, back through the changes merged so far. No
  change at all is the sentinel, a single change is itself.
\<close>

fun mergeChange :: "int \<times> int \<times> int \<Rightarrow> TextChangeRange \<Rightarrow> int \<times> int \<times> int" where
  "mergeChange (oldStart1, oldEnd1, newEnd1) nextChange =
     (let oldStart2 = spanStart nextChange;
          oldEnd2 = spanEnd nextChange;
          newEnd2 = oldStart2 + newLength nextChange
      in (min oldStart1 oldStart2,
          max oldEnd1 (oldEnd1 + (oldEnd2 - newEnd1)),
          max newEnd2 (newEnd2 + (newEnd1 - oldEnd2))))"

fun collapseChangesAcrossMultipleVersions :: "TextChangeRange list \<Rightarrow> TextChangeRange" where
  "collapseChangesAcrossMultipleVersions [] = unchanged"
| "collapseChangesAcrossMultipleVersions [c] = c"
| "collapseChangesAcrossMultipleVersions (change0 # cs) =
     (case foldl mergeChange
             (spanStart change0, spanEnd change0, spanStart change0 + newLength change0) cs of
        (oldStartN, oldEndN, newEndN) \<Rightarrow>
          \<lparr>spanStart = oldStartN, spanEnd = oldEndN, newLength = newEndN - oldStartN\<rparr>)"

text \<open>The net length delta of a change: what it adds minus what it replaces.\<close>

definition netDelta :: "TextChangeRange \<Rightarrow> int" where
  "netDelta c = newLength c - (spanEnd c - spanStart c)"

section \<open>ScriptSnapshot: the versioned buffer of one file\<close>

record ScriptSnapshot =
  filePath :: string
  version :: int
  isOpen :: bool
  content :: string
  changes :: "TextChangeRange list"
  lineStartPositions :: "nat list"
  maxChanges :: nat

text \<open>
  \<^verbatim>\<open>updateContent(content, resetChanges = true)\<close>: it cannot throw and returns
  \<open>true\<close>; the model returns the snapshot it leaves.
\<close>

definition updateContent :: "library \<Rightarrow> string \<Rightarrow> bool \<Rightarrow> ScriptSnapshot \<Rightarrow> ScriptSnapshot" where
  "updateContent lib newContent resetChanges s =
     s\<lparr>changes := (if resetChanges then [] else changes s),
       content := newContent,
       lineStartPositions := parseLineStarts lib newContent,
       version := version s + 1\<rparr>"

text \<open>
  The constructor: \<open>maxChanges\<close> is initialised to 100, the version to 0 and the open flag
  to \<open>true\<close>; then the file is read (the argument of \<open>updateContent\<close> is evaluated first, and a
  failed read leaves no snapshot) and its content is set through \<open>updateContent\<close>, which
  also gives the history and the line starts their first values.
\<close>

definition newScriptSnapshot :: "library \<Rightarrow> string \<Rightarrow> error + ScriptSnapshot" where
  "newScriptSnapshot lib f =
     (case readFileContents lib f of
        Inl e \<Rightarrow> Inl e
      | Inr text \<Rightarrow>
          Inr (updateContent lib text True
                 \<lparr>filePath = f, version = 0, isOpen = True, content = [], changes = [],
                  lineStartPositions = [], maxChanges = 100\<rparr>))"

definition getVersion :: "ScriptSnapshot \<Rightarrow> int" where
  "getVersion s = version s"

definition setOpen :: "ScriptSnapshot \<Rightarrow> ScriptSnapshot" where
  "setOpen s = s\<lparr>isOpen := True\<rparr>"

definition setClosed :: "ScriptSnapshot \<Rightarrow> ScriptSnapshot" where
  "setClosed s = s\<lparr>isOpen := False\<rparr>"

text \<open>
  \<^verbatim>\<open>addEdit(offset, length, replacementText)\<close> mutates the snapshot in place, so the
  model returns the outcome together with the snapshot left behind: when the library
  rejects the bounds, the history may already have been emptied.
\<close>

definition addEdit ::
  "library \<Rightarrow> int \<Rightarrow> int \<Rightarrow> string \<Rightarrow> ScriptSnapshot \<Rightarrow> (error + bool) \<times> ScriptSnapshot" where
  "addEdit lib offset len replacementText s =
     (let s1 = (if length (changes s) \<ge> maxChanges s then s\<lparr>changes := []\<rparr> else s);
          beforeEdit = substring (content s1) 0 offset;
          afterEdit = substring (content s1) (offset + len) (int (length (content s1)));
          newContent = beforeEdit @ replacementText @ afterEdit
      in case newTextChangeRange lib offset (offset + len) (int (length replacementText)) of
           Inl e \<Rightarrow> (Inl e, s1)
         | Inr textChangeRange \<Rightarrow>
             (Inr True,
              updateContent lib newContent False
                (s1\<lparr>changes := changes s1 @ [textChangeRange]\<rparr>)))"

definition getText :: "ScriptSnapshot \<Rightarrow> int \<Rightarrow> int \<Rightarrow> string" where
  "getText s start end' = substring (content s) start end'"

definition getLength :: "ScriptSnapshot \<Rightarrow> int" where
  "getLength s = int (length (content s))"

text \<open>
  \<^verbatim>\<open>getTextChangeRangeSinceVersion(version)\<close>: \<open>None\<close> is the \<open>null\<close> the code returns.
  \<^verbatim>\<open>changes.slice(start)\<close> is empty when \<open>start\<close> is at or past the end, and counts
  from the end when \<open>start\<close> is negative (which the second test excludes).
\<close>

definition slice :: "'a list \<Rightarrow> int \<Rightarrow> 'a list" where
  "slice xs start =
     (let len = int (length xs);
          k = (if start < 0 then max (len + start) 0 else min start len)
      in drop (nat k) xs)"

definition getTextChangeRangeSinceVersion :: "ScriptSnapshot \<Rightarrow> int \<Rightarrow> TextChangeRange option" where
  "getTextChangeRangeSinceVersion s v =
     (if version s = v then Some unchanged
      else if version s - v \<le> int (length (changes s)) then
        (let start = int (length (changes s)) - (version s - v);
             window = slice (changes s) start
         in Some (collapseChangesAcrossMultipleVersions window))
      else None)"

section \<open>LanguageServiceHost: the registry of snapshots\<close>

text \<open>
  Of the host's fields only \<open>fileMap\<close> changes; \<^verbatim>\<open>fileMap.get(file)\<close> is \<open>undefined\<close>
  for a file that was never added, and a method call on it raises \<open>TypeError\<close>.
\<close>

record LanguageServiceHost =
  fileMap :: "string \<rightharpoonup> ScriptSnapshot"

definition newLanguageServiceHost :: LanguageServiceHost where
  "newLanguageServiceHost = \<lparr>fileMap = Map.empty\<rparr>"

definition addFile :: "library \<Rightarrow> string \<Rightarrow> LanguageServiceHost \<Rightarrow> (error + bool) \<times> LanguageServiceHost" where
  "addFile lib f h =
     (case newScriptSnapshot lib f of
        Inl e \<Rightarrow> (Inl e, h)
      | Inr s \<Rightarrow> (Inr True, h\<lparr>fileMap := (fileMap h)(f \<mapsto> s)\<rparr>))"

definition removeFile :: "string \<Rightarrow> LanguageServiceHost \<Rightarrow> (error + bool) \<times> LanguageServiceHost" where
  "removeFile f h = (Inr (fileMap h f \<noteq> None), h\<lparr>fileMap := (fileMap h)(f := None)\<rparr>)"

definition updateFileContents ::
  "library \<Rightarrow> string \<Rightarrow> string \<Rightarrow> LanguageServiceHost \<Rightarrow> (error + bool) \<times> LanguageServiceHost" where
  "updateFileContents lib f newContent h =
     (case fileMap h f of
        None \<Rightarrow> (Inl TypeError, h)
      | Some s \<Rightarrow> (Inr True, h\<lparr>fileMap := (fileMap h)(f \<mapsto> updateContent lib newContent True s)\<rparr>))"

definition updateFile :: "library \<Rightarrow> string \<Rightarrow> LanguageServiceHost \<Rightarrow> (error + bool) \<times> LanguageServiceHost" where
  "updateFile lib f h =
     (case readFileContents lib f of
        Inl e \<Rightarrow> (Inl e, h)
      | Inr text \<Rightarrow> updateFileContents lib f text h)"

definition editFile ::
  "library \<Rightarrow> string \<Rightarrow> int \<Rightarrow> int \<Rightarrow> string \<Rightarrow> LanguageServiceHost
     \<Rightarrow> (error + bool) \<times> LanguageServiceHost" where
  "editFile lib f offset len replacementText h =
     (case fileMap h f of
        None \<Rightarrow> (Inl TypeError, h)
      | Some s \<Rightarrow>
          (case addEdit lib offset len replacementText s of
             (r, s') \<Rightarrow> (r, h\<lparr>fileMap := (fileMap h)(f \<mapsto> s')\<rparr>)))"

definition getScriptSnapshot :: "LanguageServiceHost \<Rightarrow> string \<Rightarrow> ScriptSnapshot option" where
  "getScriptSnapshot h f = fileMap h f"

definition getScriptVersion :: "LanguageServiceHost \<Rightarrow> string \<Rightarrow> error + int" where
  "getScriptVersion h f = (case fileMap h f of None \<Rightarrow> Inl TypeError | Some s \<Rightarrow> Inr (getVersion s))"

text \<open>The calls of the service facade, and a session of them from the empty host.\<close>

datatype request =
    AddFile string
  | RemoveFile string
  | UpdateFileContents string string
  | UpdateFile string
  | EditFile string int int string

fun serve :: "library \<Rightarrow> request \<Rightarrow> LanguageServiceHost \<Rightarrow> (error + bool) \<times> LanguageServiceHost" where
  "serve lib (AddFile f) h = addFile lib f h"
| "serve lib (RemoveFile f) h = removeFile f h"
| "serve lib (UpdateFileContents f c) h = updateFileContents lib f c h"
| "serve lib (UpdateFile f) h = updateFile lib f h"
| "serve lib (EditFile f offset len t) h = editFile lib f offset len t h"

text \<open>A request that throws leaves the host as it is at the throw; the session goes on.\<close>

fun session :: "library \<Rightarrow> request list \<Rightarrow> LanguageServiceHost \<Rightarrow> LanguageServiceHost" where
  "session lib [] h = h"
| "session lib (r # rs) h = session lib rs (snd (serve lib r h))"

text \<open>Content mutations of one snapshot, each of which has to succeed.\<close>

datatype mutation = ReplaceAll string | Edit int int string

fun mutate :: "library \<Rightarrow> mutation \<Rightarrow> ScriptSnapshot \<Rightarrow> ScriptSnapshot option" where
  "mutate lib (ReplaceAll c) s = Some (updateContent lib c True s)"
| "mutate lib (Edit offset len t) s =
     (case addEdit lib offset len t s of
        (Inl e, s') \<Rightarrow> None
      | (Inr b, s') \<Rightarrow> Some s')"

fun mutations :: "library \<Rightarrow> mutation list \<Rightarrow> ScriptSnapshot \<Rightarrow> ScriptSnapshot option" where
  "mutations lib [] s = Some s"
| "mutations lib (m # ms) s =
     (case mutate lib m s of None \<Rightarrow> None | Some s' \<Rightarrow> mutations lib ms s')"

section \<open>Completion pruning\<close>

text \<open>
  \<^verbatim>\<open>validMethodChar(orig_c)\<close>: the argument is a string or \<open>undefined\<close>, and
  \<^verbatim>\<open>orig_c.toUpperCase()\<close> raises \<open>TypeError\<close> on \<open>undefined\<close>.
\<close>

definition validMethodChar :: "string option \<Rightarrow> error + bool" where
  "validMethodChar orig_c =
     (case orig_c of
        None \<Rightarrow> Inl TypeError
      | Some u \<Rightarrow>
          (let c = toUpperCase u
           in if str_le (units ''A'') c \<and> str_le c (units ''Z'') then Inr True
              else if c = units ''('' \<or> c = units '')'' then Inr True
              else if str_le (units ''0'') c \<and> str_le c (units ''9'') then Inr True
              else if c = units ''$'' \<or> c = units ''_'' then Inr True
              else Inr False))"

definition validPosition :: "LanguageServiceHost \<Rightarrow> string \<Rightarrow> int \<Rightarrow> error + bool" where
  "validPosition h fileName position =
     (if position = 0 then Inr False
      else
        (let start = position - 2; end' = position
         in case getScriptSnapshot h fileName of
              None \<Rightarrow> Inl TypeError
            | Some snap \<Rightarrow>
                (let snapshot = getText snap start end'
                 in if index snapshot 1 = Some ''.'' then
                      (case validMethodChar (index snapshot 0) of
                         Inl e \<Rightarrow> Inl e
                       | Inr b \<Rightarrow> (if \<not> b then Inr False else Inr True))
                    else
                      (case validMethodChar (index snapshot 1) of
                         Inl e \<Rightarrow> Inl e
                       | Inr b \<Rightarrow> (if \<not> b then Inr False else Inr True)))))"

text \<open>
  The loop of \<open>getPrefix\<close>,
  \<^verbatim>\<open>for (index = snapshot.length - 1; validMethodChar(snapshot.charAt(index)); index--);\<close>
  and the index it stops at.
\<close>

function scanBack :: "string \<Rightarrow> int \<Rightarrow> error + int" where
  "scanBack snapshot i =
     (case validMethodChar (Some (charAt snapshot i)) of
        Inl e \<Rightarrow> Inl e
      | Inr b \<Rightarrow> (if b then scanBack snapshot (i - 1) else Inr i))"
  by pat_completeness auto
termination
proof (relation "measure (\<lambda>(snapshot, i). nat (i + 1))")
  fix snapshot :: string and i :: int and b :: bool
  assume "validMethodChar (Some (charAt snapshot i)) = Inr b" and b
  then have "0 \<le> i"
    by (cases "0 \<le> i") (simp_all add: validMethodChar_def charAt_def toUpperCase_def units_def)
  then show "((snapshot, i - 1), (snapshot, i)) \<in> measure (\<lambda>(snapshot, i). nat (i + 1))"
    by simp
qed simp

declare scanBack.simps [simp del]

definition getPrefix :: "LanguageServiceHost \<Rightarrow> string \<Rightarrow> int \<Rightarrow> error + string" where
  "getPrefix h fileName position =
     (let start = 0; end' = position
      in case getScriptSnapshot h fileName of
           None \<Rightarrow> Inl TypeError
         | Some snap \<Rightarrow>
             (let snapshot = getText snap start end'
              in case scanBack snapshot (int (length snapshot) - 1) of
                   Inl e \<Rightarrow> Inl e
                 | Inr i \<Rightarrow>
                     (if charAt snapshot i = ''.'' \<or> charAt snapshot i = '' ''
                         \<or> charAt snapshot i = [CHR 0x0A]
                      then Inr (substring snapshot (i + 1) (int (length snapshot)))
                      else Inr [])))"

fun knownToBreakLoop :: "string list \<Rightarrow> string \<Rightarrow> bool" where
  "knownToBreakLoop [] p = False"
| "knownToBreakLoop (b # bs) p = (if b = p then True else knownToBreakLoop bs p)"

definition knownToBreak :: "string \<Rightarrow> bool" where
  "knownToBreak p = knownToBreakLoop [''$''] p"

definition prefixMatch :: "string \<Rightarrow> string \<Rightarrow> bool" where
  "prefixMatch p str = (indexOf str p = 0)"

text \<open>
  The language service the host queries. A completion entry is the service's; the
  bridge reads its \<open>name\<close> only. \<open>None\<close> is the \<open>null\<close> the service answers when it
  has no completions; either call may throw.
\<close>

record CompletionEntry =
  name :: string

record ('m, 'd) languageService =
  ls_getCompletionsAtPosition ::
    "string \<Rightarrow> int \<Rightarrow> bool \<Rightarrow> error + 'm CompletionEntry_scheme list option"
  ls_getCompletionEntryDetails :: "string \<Rightarrow> int \<Rightarrow> string \<Rightarrow> error + 'd"

text \<open>Every call into the service is recorded, in order.\<close>

datatype call =
    CompletionsAtPosition string int bool
  | CompletionEntryDetails string int string

record 'd DetailedAutoCompletionInfo =
  pruningPrefix :: string
  entries :: "'d list"

text \<open>The loop that keeps the raw entries matching the prefix, pushing onto \<open>prunedEntries\<close>.\<close>

fun pruneLoop ::
  "string \<Rightarrow> 'm CompletionEntry_scheme list \<Rightarrow> 'm CompletionEntry_scheme list
     \<Rightarrow> 'm CompletionEntry_scheme list" where
  "pruneLoop p [] prunedEntries = prunedEntries"
| "pruneLoop p (e # rawEntries) prunedEntries =
     pruneLoop p rawEntries (if prefixMatch p (name e) then prunedEntries @ [e] else prunedEntries)"

text \<open>
  \<open>getExplicitPrunedCompletionsAtPosition\<close> returns an \<open>AutoCompletionInfo\<close>, an object
  with the single field \<open>entries\<close>: the model returns that field (\<open>None\<close> would be
  \<open>null\<close>) and the calls made.
\<close>

definition getExplicitPrunedCompletionsAtPosition ::
  "('m, 'd) languageService \<Rightarrow> string \<Rightarrow> int \<Rightarrow> string
     \<Rightarrow> call list \<times> (error + 'm CompletionEntry_scheme list option)" where
  "getExplicitPrunedCompletionsAtPosition ls fileName position prefix' =
     (let isMemberCompletion = False
      in ([CompletionsAtPosition fileName position isMemberCompletion],
          case ls_getCompletionsAtPosition ls fileName position isMemberCompletion of
            Inl e \<Rightarrow> Inl e
          | Inr None \<Rightarrow> Inr (Some [])
          | Inr (Some rawEntries) \<Rightarrow> Inr (Some (pruneLoop prefix' rawEntries []))))"

text \<open>The loop that asks the service for the details of each entry kept.\<close>

fun detailLoop ::
  "('m, 'd) languageService \<Rightarrow> string \<Rightarrow> int \<Rightarrow> 'm CompletionEntry_scheme list
     \<Rightarrow> 'd list \<Rightarrow> call list \<Rightarrow> call list \<times> (error + 'd list)" where
  "detailLoop ls fileName position [] detailedEntries calls = (calls, Inr detailedEntries)"
| "detailLoop ls fileName position (e # es) detailedEntries calls =
     (case ls_getCompletionEntryDetails ls fileName position (name e) of
        Inl err \<Rightarrow> (calls @ [CompletionEntryDetails fileName position (name e)], Inl err)
      | Inr detailedEntry \<Rightarrow>
          detailLoop ls fileName position es (detailedEntries @ [detailedEntry])
            (calls @ [CompletionEntryDetails fileName position (name e)]))"

definition getDetailedExplicitPrunedCompletionsAtPosition ::
  "('m, 'd) languageService \<Rightarrow> string \<Rightarrow> int \<Rightarrow> string
     \<Rightarrow> call list \<times> (error + 'd DetailedAutoCompletionInfo)" where
  "getDetailedExplicitPrunedCompletionsAtPosition ls fileName position prefix' =
     (case getExplicitPrunedCompletionsAtPosition ls fileName position prefix' of
        (calls, Inl e) \<Rightarrow> (calls, Inl e)
      | (calls, Inr None) \<Rightarrow> (calls, Inr \<lparr>pruningPrefix = [], entries = []\<rparr>)
      | (calls, Inr (Some abbreviated)) \<Rightarrow>
          (case detailLoop ls fileName position abbreviated [] calls of
             (calls', Inl e) \<Rightarrow> (calls', Inl e)
           | (calls', Inr detailedEntries) \<Rightarrow>
               (calls', Inr \<lparr>pruningPrefix = prefix', entries = detailedEntries\<rparr>)))"

definition getDetailedImplicitlyPrunedCompletionsAtPosition ::
  "('m, 'd) languageService \<Rightarrow> LanguageServiceHost \<Rightarrow> string \<Rightarrow> int
     \<Rightarrow> call list \<times> (error + 'd DetailedAutoCompletionInfo)" where
  "getDetailedImplicitlyPrunedCompletionsAtPosition ls h fileName position =
     (case validPosition h fileName position of
        Inl e \<Rightarrow> ([], Inl e)
      | Inr valid \<Rightarrow>
          (if valid then
             (case getPrefix h fileName position of
                Inl e \<Rightarrow> ([], Inl e)
              | Inr prefix' \<Rightarrow>
                  (if knownToBreak prefix' then ([], Inr \<lparr>pruningPrefix = prefix', entries = []\<rparr>)
                   else getDetailedExplicitPrunedCompletionsAtPosition ls fileName position prefix'))
           else ([], Inr \<lparr>pruningPrefix = [], entries = []\<rparr>)))"

definition getCompletionsAtPosition ::
  "('m, 'd) languageService \<Rightarrow> LanguageServiceHost \<Rightarrow> string \<Rightarrow> int
     \<Rightarrow> call list \<times> (error + 'd DetailedAutoCompletionInfo)" where
  "getCompletionsAtPosition ls h fileName position =
     getDetailedImplicitlyPrunedCompletionsAtPosition ls h fileName position"

section \<open>Sample collaborators\<close>

text \<open>
  A library whose reader finds the same text under every path and whose span
  constructor takes the bounds with \<open>0 \<le> start \<le> end\<close>; it serves the concrete
  evaluations below.
\<close>

definition libraryReading :: "string \<Rightarrow> library" where
  "libraryReading text =
     \<lparr>readFileContents = (\<lambda>f. Inr text),
      parseLineStarts = (\<lambda>s. [0]),
      acceptsBounds = (\<lambda>start end'. 0 \<le> start \<and> start \<le> end')\<rparr>"

text \<open>
  A language service that answers every completion query with the same raw entries (or
  \<open>null\<close>) and gives, as the details of an entry, its name; and one whose every call
  throws.
\<close>

definition answering :: "CompletionEntry list option \<Rightarrow> (unit, string) languageService" where
  "answering raw =
     \<lparr>ls_getCompletionsAtPosition = (\<lambda>f position member. Inr raw),
      ls_getCompletionEntryDetails = (\<lambda>f position n. Inr n)\<rparr>"

definition failingService :: "(unit, string) languageService" where
  "failingService =
     \<lparr>ls_getCompletionsAtPosition = (\<lambda>f position member. Inl LibraryError),
      ls_getCompletionEntryDetails = (\<lambda>f position n. Inl LibraryError)\<rparr>"

text \<open>The host after \<open>addFile\<close> of one file with the given text.\<close>

definition hostWith :: "string \<Rightarrow> string \<Rightarrow> LanguageServiceHost" where
  "hostWith f text = snd (addFile (libraryReading text) f newLanguageServiceHost)"

text \<open>The snapshot the constructor builds for a file \<open>a.ts\<close> holding the given text.\<close>

definition snapshotOf :: "string \<Rightarrow> ScriptSnapshot" where
  "snapshotOf text =
     \<lparr>filePath = ''a.ts'', version = 1, isOpen = True, content = text, changes = [],
      lineStartPositions = [0], maxChanges = 100\<rparr>"

section \<open>Notions the properties are stated with\<close>

text \<open>An offset brought into \<open>[0, length]\<close>, as \<open>substring\<close> does with each argument.\<close>

definition clamp :: "string \<Rightarrow> int \<Rightarrow> nat" where
  "clamp s i = nat (min (max i 0) (int (length s)))"

text \<open>
  The identifier characters as the specification lists them: ASCII letters of either
  case, digits, the two parentheses, the dollar sign and the underscore.
\<close>

definition isIdentifierChar :: "char \<Rightarrow> bool" where
  "isIdentifierChar c =
     (let n = (of_char c :: nat)
      in (65 \<le> n \<and> n \<le> 90) \<or> (97 \<le> n \<and> n \<le> 122) \<or> (48 \<le> n \<and> n \<le> 57)
         \<or> c = CHR ''('' \<or> c = CHR '')'' \<or> c = CHR ''$'' \<or> c = CHR ''_'')"

text \<open>
  The characters \<open>validMethodChar\<close> accepts among the code units below 256: the above
  and the sharp s (unit 223), whose upper case is \<open>SS\<close>.
\<close>

definition isMethodChar :: "char \<Rightarrow> bool" where
  "isMethodChar c = (isIdentifierChar c \<or> c = CHR 0xDF)"

text \<open>
  Prefix extraction in the specification's words, for a given class of identifier
  characters, on the text before the cursor: the run of identifier characters at the
  end is the prefix when the character before the run is a dot, a space or a newline;
  at the start of the text, or after any other character, the prefix is empty.
\<close>

definition specPrefix :: "(char \<Rightarrow> bool) \<Rightarrow> string \<Rightarrow> string" where
  "specPrefix isId text =
     (case dropWhile isId (rev text) of
        [] \<Rightarrow> []
      | b # before \<Rightarrow>
          (if b = CHR ''.'' \<or> b = CHR '' '' \<or> b = CHR 0x0A
           then rev (takeWhile isId (rev text))
           else []))"

text \<open>
  Position validity in the specification's words: with \<open>c1\<close> at \<open>position - 2\<close> and
  \<open>c2\<close> at \<open>position - 1\<close>, a dot before the cursor asks for an identifier character
  before the dot; anything else has to be an identifier character itself.
\<close>

definition specValid :: "(char \<Rightarrow> bool) \<Rightarrow> char \<Rightarrow> char \<Rightarrow> bool" where
  "specValid isId c1 c2 = (if c2 = CHR ''.'' then isId c1 else isId c2)"

text \<open>Which mutations are edits, and which the library's span constructor lets through.\<close>

fun isEdit :: "mutation \<Rightarrow> bool" where
  "isEdit (Edit offset len t) = True"
| "isEdit (ReplaceAll c) = False"

fun accepted :: "library \<Rightarrow> mutation \<Rightarrow> bool" where
  "accepted lib (Edit offset len t) = acceptsBounds lib offset (offset + len)"
| "accepted lib (ReplaceAll c) = True"

section \<open>Versions\<close>

lemma mutate_version: "mutate lib m s = Some s' \<Longrightarrow> version s' = version s + 1"
  by (cases m) (auto simp: addEdit_def updateContent_def Let_def split: sum.splits if_splits)

lemma mutations_version:
  "mutations lib ms s = Some s' \<Longrightarrow> version s' = version s + int (length ms)"
proof (induction ms arbitrary: s)
  case Nil
  then show ?case by simp
next
  case (Cons m ms)
  from Cons.prems obtain s1
    where m: "mutate lib m s = Some s1" and rest: "mutations lib ms s1 = Some s'"
    by (auto split: option.splits)
  from mutate_version [OF m] Cons.IH [OF rest] show ?case by simp
qed

lemma newScriptSnapshot_fresh:
  assumes "newScriptSnapshot lib f = Inr s"
  shows "version s = 1" and "isOpen s" and "changes s = []" and "maxChanges s = 100"
  using assms by (auto simp: newScriptSnapshot_def updateContent_def split: sum.splits)

text \<open>
  C1, as stated, fails: the constructor sets the version to 0 and then loads the
  content through \<open>updateContent\<close>, which increments it, so a snapshot just created has
  version 1, not 0.
\<close>

theorem fresh_version_counterexample:
  "map_sum id version (newScriptSnapshot (libraryReading ''abc'') ''a.ts'') = Inr 1
   \<and> map_sum id version (newScriptSnapshot (libraryReading ''abc'') ''a.ts'') \<noteq> Inr 0"
  by (simp add: newScriptSnapshot_def libraryReading_def updateContent_def)

text \<open>
  C1, amended: a snapshot just created has version 1, is open and has an empty change
  history; after \<open>N\<close> successful content mutations (full replacements or edits, in any
  order) its version is \<open>N + 1\<close>.
\<close>

theorem fresh_snapshot_version:
  assumes "newScriptSnapshot lib f = Inr s" and "mutations lib ms s = Some s'"
  shows "version s = 1 \<and> isOpen s \<and> changes s = [] \<and> version s' = int (length ms) + 1"
  using newScriptSnapshot_fresh [OF assms(1)] mutations_version [OF assms(2)] by simp

theorem fresh_snapshot_version_witness:
  "\<exists>s s'. newScriptSnapshot (libraryReading ''abc'') ''a.ts'' = Inr s
     \<and> mutations (libraryReading ''abc'') [ReplaceAll ''x'', Edit 0 1 ''yz''] s = Some s'
     \<and> version s = 1 \<and> content s' = ''yz'' \<and> version s' = 3"
proof -
  obtain s where s: "newScriptSnapshot (libraryReading ''abc'') ''a.ts'' = Inr s"
    by (simp add: newScriptSnapshot_def libraryReading_def)
  obtain s'
    where s': "mutations (libraryReading ''abc'') [ReplaceAll ''x'', Edit 0 1 ''yz''] s = Some s'"
    by (simp add: addEdit_def newTextChangeRange_def libraryReading_def Let_def)
  have c: "content s' = ''yz''"
    using s s'
    by (auto simp: newScriptSnapshot_def addEdit_def newTextChangeRange_def libraryReading_def
        updateContent_def substring_def Let_def)
  from fresh_snapshot_version [OF s s'] c s s' show ?thesis by simp
qed

text \<open>
  C10: \<open>updateFileContents\<close> on a registered file adds exactly 1 to the version and
  empties the change history for every new content \<open>c\<close>, the current content included:
  nothing compares \<open>c\<close> with what the snapshot holds.
\<close>

theorem updateFileContents_no_noop:
  assumes "fileMap h f = Some s"
  shows "\<exists>h' s'. updateFileContents lib f c h = (Inr True, h') \<and> fileMap h' f = Some s'
           \<and> version s' = version s + 1 \<and> changes s' = [] \<and> content s' = c"
  using assms by (simp add: updateFileContents_def updateContent_def)

theorem updateFileContents_no_noop_witness:
  "\<exists>s h' s'. fileMap (hostWith ''a.ts'' ''abc'') ''a.ts'' = Some s
     \<and> updateFileContents (libraryReading ''abc'') ''a.ts'' (content s) (hostWith ''a.ts'' ''abc'')
         = (Inr True, h')
     \<and> fileMap h' ''a.ts'' = Some s' \<and> content s' = content s \<and> version s' = 2 \<and> changes s' = []"
proof -
  obtain s where s: "fileMap (hostWith ''a.ts'' ''abc'') ''a.ts'' = Some s" and v: "version s = 1"
    by (simp add: hostWith_def addFile_def newScriptSnapshot_def libraryReading_def
        newLanguageServiceHost_def updateContent_def)
  from updateFileContents_no_noop [OF s, of "libraryReading ''abc''" "content s"] v s
  show ?thesis by auto
qed

section \<open>Offsets\<close>

lemma newScriptSnapshot_sample:
  "newScriptSnapshot (libraryReading text) ''a.ts'' = Inr (snapshotOf text)"
  by (simp add: newScriptSnapshot_def libraryReading_def updateContent_def snapshotOf_def)

lemma clamp_le: "clamp s i \<le> length s"
  unfolding clamp_def by (rule nat_le_iff [THEN iffD2]) (rule min.cobounded2)

lemma clamp_0: "clamp s 0 = 0"
  by (simp add: clamp_def)

lemma clamp_neg: "i \<le> 0 \<Longrightarrow> clamp s i = 0"
  by (simp add: clamp_def max.absorb2)

lemma clamp_length: "int (length s) \<le> i \<Longrightarrow> clamp s i = length s"
  by (simp add: clamp_def max.absorb1 min.absorb2)

lemma clamp_inside: "0 \<le> i \<Longrightarrow> i \<le> int (length s) \<Longrightarrow> clamp s i = nat i"
  by (simp add: clamp_def max.absorb1 min.absorb1)

lemma substring_ordered:
  assumes "a \<le> b"
  shows "substring s a b = take (clamp s b - clamp s a) (drop (clamp s a) s)"
proof -
  define x where "x = min (max a 0) (int (length s))"
  define y where "y = min (max b 0) (int (length s))"
  have xy: "x \<le> y"
    unfolding x_def y_def using assms by (intro min.mono max.mono order_refl)
  have x0: "0 \<le> x"
    unfolding x_def by (rule min.boundedI) (rule max.cobounded2, rule of_nat_0_le_iff)
  have "substring s a b = take (nat (max x y - min x y)) (drop (nat (min x y)) s)"
    unfolding substring_def Let_def x_def y_def ..
  also have "\<dots> = take (nat (y - x)) (drop (nat x) s)"
    using xy by (simp only: min.absorb1 max.absorb2)
  also have "nat (y - x) = nat y - nat x"
    using x0 xy by (simp only: nat_diff_distrib')
  finally show ?thesis
    unfolding clamp_def x_def y_def .
qed

lemma substring_commute: "substring s a b = substring s b a"
  unfolding substring_def Let_def by (simp only: min.commute max.commute)

lemma substring_clamped:
  "substring s a b = take (clamp s (max a b) - clamp s (min a b)) (drop (clamp s (min a b)) s)"
proof (cases "a \<le> b")
  case True
  then show ?thesis by (simp only: substring_ordered min.absorb1 max.absorb2)
next
  case False
  then have "b \<le> a" by simp
  then show ?thesis
    by (simp only: substring_commute [of s a b] substring_ordered min.absorb2 max.absorb1)
qed

lemma substring_prefix: "substring s 0 i = take (clamp s i) s"
proof (cases "0 \<le> i")
  case True
  then show ?thesis by (simp add: substring_ordered clamp_0)
next
  case False
  then have "i \<le> 0" by simp
  then show ?thesis
    by (simp add: substring_commute [of s 0 i] substring_ordered clamp_0 clamp_neg)
qed

lemma substring_suffix: "substring s i (int (length s)) = drop (clamp s i) s"
proof (cases "i \<le> int (length s)")
  case True
  then show ?thesis by (simp add: substring_ordered clamp_length)
next
  case False
  then have "int (length s) \<le> i" by simp
  then show ?thesis
    by (simp add: substring_commute [of s i] substring_ordered clamp_length)
qed

lemma addEdit_accepted:
  assumes "acceptsBounds lib offset (offset + len)"
  shows "addEdit lib offset len t s
           = (Inr True,
              s\<lparr>changes := (if maxChanges s \<le> length (changes s) then [] else changes s)
                     @ [\<lparr>spanStart = offset, spanEnd = offset + len, newLength = int (length t)\<rparr>],
                content := take (clamp (content s) offset) (content s) @ t
                     @ drop (clamp (content s) (offset + len)) (content s),
                lineStartPositions := parseLineStarts lib
                    (take (clamp (content s) offset) (content s) @ t
                     @ drop (clamp (content s) (offset + len)) (content s)),
                version := version s + 1\<rparr>)"
  using assms
  by (simp add: addEdit_def newTextChangeRange_def updateContent_def Let_def
      substring_prefix substring_suffix)

lemma addEdit_rejected:
  assumes "\<not> acceptsBounds lib offset (offset + len)"
  shows "addEdit lib offset len t s
           = (Inl LibraryError,
              s\<lparr>changes := (if maxChanges s \<le> length (changes s) then [] else changes s)\<rparr>)"
  using assms by (simp add: addEdit_def newTextChangeRange_def Let_def)

text \<open>
  C2, as stated, fails: neither \<open>addEdit\<close> nor \<open>getText\<close> checks its offsets. On the
  content \<open>abc\<close>, an edit at offset 2 of length 5 (so \<open>offset + length = 7 > 3\<close>)
  succeeds, changes the content to \<open>abX\<close>, increments the version and records the span
  \<open>[2, 7)\<close>; \<open>getText(2, 7)\<close> and \<open>getText(-4, 1)\<close> return the clamped text.
\<close>

theorem bounds_counterexample:
  "addEdit (libraryReading ''abc'') 2 5 ''X'' (snapshotOf ''abc'')
     = (Inr True,
        (snapshotOf ''abX'')\<lparr>version := 2, changes := [\<lparr>spanStart = 2, spanEnd = 7, newLength = 1\<rparr>]\<rparr>)
   \<and> getText (snapshotOf ''abc'') 2 7 = ''c''
   \<and> getText (snapshotOf ''abc'') (- 4) 1 = ''a''"
  by (simp add: addEdit_accepted libraryReading_def snapshotOf_def getText_def substring_clamped
      clamp_def)

text \<open>
  C2, amended: offsets are clamped, not checked. \<open>getText(start, end)\<close> never fails
  and returns the content between the two offsets, each brought into
  \<open>[0, length(content)]\<close>, the smaller one first. \<open>addEdit(offset, length, text)\<close>, unless
  the library's span constructor rejects the bounds \<open>(offset, offset + length)\<close>,
  succeeds: the new content is the content up to the clamped offset, the text, and the
  content from the clamped \<open>offset + length\<close> on; the version grows by one and the range
  recorded in the history keeps the offsets as given.
\<close>

theorem offsets_are_clamped:
  assumes "acceptsBounds lib offset (offset + len)"
  shows "getText s start end'
           = take (clamp (content s) (max start end') - clamp (content s) (min start end'))
               (drop (clamp (content s) (min start end')) (content s))
       \<and> fst (addEdit lib offset len t s) = Inr True
       \<and> content (snd (addEdit lib offset len t s))
           = take (clamp (content s) offset) (content s) @ t
               @ drop (clamp (content s) (offset + len)) (content s)
       \<and> version (snd (addEdit lib offset len t s)) = version s + 1
       \<and> changes (snd (addEdit lib offset len t s))
           = (if maxChanges s \<le> length (changes s) then [] else changes s)
               @ [\<lparr>spanStart = offset, spanEnd = offset + len, newLength = int (length t)\<rparr>]"
  by (simp add: addEdit_accepted [OF assms] getText_def substring_clamped)

theorem offsets_are_clamped_witness:
  "acceptsBounds (libraryReading ''abc'') 2 (2 + 5)
   \<and> getText (snapshotOf ''abc'') 2 7 = ''c''
   \<and> fst (addEdit (libraryReading ''abc'') 2 5 ''X'' (snapshotOf ''abc'')) = Inr True
   \<and> content (snd (addEdit (libraryReading ''abc'') 2 5 ''X'' (snapshotOf ''abc''))) = ''abX''
   \<and> version (snd (addEdit (libraryReading ''abc'') 2 5 ''X'' (snapshotOf ''abc''))) = 2"
proof -
  have a: "acceptsBounds (libraryReading ''abc'') 2 (2 + 5)"
    by (simp add: libraryReading_def)
  have c: "content (snapshotOf ''abc'') = ''abc''" "version (snapshotOf ''abc'') = 1"
    by (simp_all add: snapshotOf_def)
  from offsets_are_clamped [OF a, of "snapshotOf ''abc''" 2 7 "''X''"] a c
  show ?thesis by (simp add: clamp_def)
qed

section \<open>The bounded change history\<close>

lemma addEdit_bounded:
  assumes "maxChanges s = 100" and "length (changes s) \<le> 100"
  shows "maxChanges (snd (addEdit lib offset len t s)) = 100
       \<and> length (changes (snd (addEdit lib offset len t s))) \<le> 100"
proof (cases "acceptsBounds lib offset (offset + len)")
  case True
  with assms show ?thesis by (simp add: addEdit_accepted)
next
  case False
  with assms show ?thesis by (simp add: addEdit_rejected)
qed

lemma serve_bounded:
  assumes "\<forall>f s. fileMap h f = Some s \<longrightarrow> maxChanges s = 100 \<and> length (changes s) \<le> 100"
  shows "\<forall>f s. fileMap (snd (serve lib r h)) f = Some s
           \<longrightarrow> maxChanges s = 100 \<and> length (changes s) \<le> 100"
proof (cases r)
  case (AddFile g)
  with assms show ?thesis
    by (auto simp: addFile_def dest: newScriptSnapshot_fresh split: sum.splits if_splits)
next
  case (RemoveFile g)
  with assms show ?thesis
    by (auto simp: removeFile_def split: if_splits)
next
  case (UpdateFileContents g c)
  with assms show ?thesis
    by (auto simp: updateFileContents_def updateContent_def split: option.splits if_splits)
next
  case (UpdateFile g)
  with assms show ?thesis
    by (auto simp: updateFile_def updateFileContents_def updateContent_def
        split: sum.splits option.splits if_splits)
next
  case (EditFile g offset len t)
  show ?thesis
  proof (cases "fileMap h g")
    case None
    with assms EditFile show ?thesis by (simp add: editFile_def)
  next
    case (Some s0)
    with assms have "maxChanges s0 = 100" "length (changes s0) \<le> 100" by auto
    from addEdit_bounded [OF this, of lib offset len t] assms Some EditFile show ?thesis
      by (auto simp: editFile_def split_beta split: if_splits)
  qed
qed

lemma session_bounded:
  assumes "\<forall>f s. fileMap h f = Some s \<longrightarrow> maxChanges s = 100 \<and> length (changes s) \<le> 100"
  shows "\<forall>f s. fileMap (session lib rs h) f = Some s
           \<longrightarrow> maxChanges s = 100 \<and> length (changes s) \<le> 100"
  using assms
proof (induction rs arbitrary: h)
  case Nil
  then show ?case by simp
next
  case (Cons r rs)
  from Cons.IH [OF serve_bounded [OF Cons.prems]] show ?case by simp
qed

lemma mutate_Edit_Some:
  assumes "mutate lib (Edit offset len t) s = Some s1"
  shows "acceptsBounds lib offset (offset + len)" and "s1 = snd (addEdit lib offset len t s)"
proof -
  show a: "acceptsBounds lib offset (offset + len)"
  proof (rule ccontr)
    assume "\<not> acceptsBounds lib offset (offset + len)"
    from addEdit_rejected [OF this] assms show False by simp
  qed
  from addEdit_accepted [OF a] assms show "s1 = snd (addEdit lib offset len t s)"
    by simp
qed

lemma mutations_append:
  "mutations lib (xs @ ys) s
     = (case mutations lib xs s of None \<Rightarrow> None | Some s1 \<Rightarrow> mutations lib ys s1)"
  by (induction xs arbitrary: s) (auto split: option.splits)

lemma edits_fill_history:
  assumes "maxChanges s = 100" and "length (changes s) + length ms \<le> 100"
    and "list_all isEdit ms" and "mutations lib ms s = Some s'"
  shows "length (changes s') = length (changes s) + length ms \<and> maxChanges s' = 100"
  using assms
proof (induction ms arbitrary: s)
  case Nil
  then show ?case by simp
next
  case (Cons m ms)
  from Cons.prems(3) obtain offset len t where m: "m = Edit offset len t"
    by (cases m) auto
  from Cons.prems(4) obtain s1
    where s1: "mutate lib m s = Some s1" and rest: "mutations lib ms s1 = Some s'"
    by (auto split: option.splits)
  from mutate_Edit_Some [OF s1 [unfolded m]]
  have "s1 = snd (addEdit lib offset len t s)" and "acceptsBounds lib offset (offset + len)"
    by simp_all
  with Cons.prems(1,2)
  have l: "length (changes s1) = length (changes s) + 1" and x: "maxChanges s1 = 100"
    by (simp_all add: addEdit_accepted)
  from Cons.prems(2,3) l have "length (changes s1) + length ms \<le> 100" "list_all isEdit ms"
    by simp_all
  from Cons.IH [OF x this rest] l show ?case by simp
qed

lemma overflow_clears:
  assumes "maxChanges s \<le> length (changes s)" and "acceptsBounds lib offset (offset + len)"
  shows "changes (snd (addEdit lib offset len t s))
           = [\<lparr>spanStart = offset, spanEnd = offset + len, newLength = int (length t)\<rparr>]"
  using assms by (simp add: addEdit_accepted)

lemma hundred_and_one_edits:
  assumes "newScriptSnapshot lib f = Inr s" and "list_all isEdit ms" and "length ms = 101"
    and "mutations lib ms s = Some s'"
  shows "length (changes s') = 1" and "version s' = 102"
    and "getTextChangeRangeSinceVersion s' 0 = None"
    and "getTextChangeRangeSinceVersion s' (version s) = None"
proof -
  from assms(3) have ne: "ms \<noteq> []" by auto
  define xs where "xs = butlast ms"
  define m where "m = last ms"
  from ne have ms: "ms = xs @ [m]" by (simp add: xs_def m_def)
  from assms(3) ms have lx: "length xs = 100" by simp
  from assms(2) ms have ex: "list_all isEdit xs" and em: "isEdit m" by simp_all
  from assms(4) ms obtain s1
    where s1: "mutations lib xs s = Some s1" and last: "mutate lib m s1 = Some s'"
    by (auto simp: mutations_append split: option.splits)
  from newScriptSnapshot_fresh [OF assms(1)]
  have fresh: "changes s = []" "maxChanges s = 100" "version s = 1" by simp_all
  with lx have "maxChanges s = 100" "length (changes s) + length xs \<le> 100" by simp_all
  from edits_fill_history [OF this ex s1] fresh lx
  have full: "length (changes s1) = 100" "maxChanges s1 = 100" by simp_all
  from em obtain offset len t where m: "m = Edit offset len t" by (cases m) auto
  from mutate_Edit_Some [OF last [unfolded m]]
  have a: "acceptsBounds lib offset (offset + len)" and s': "s' = snd (addEdit lib offset len t s1)"
    by simp_all
  from full have "maxChanges s1 \<le> length (changes s1)" by simp
  from overflow_clears [OF this a] s' show one: "length (changes s') = 1" by simp
  from mutations_version [OF assms(4)] fresh assms(3) show v: "version s' = 102" by simp
  from one v show "getTextChangeRangeSinceVersion s' 0 = None"
    by (simp add: getTextChangeRangeSinceVersion_def)
  from one v fresh show "getTextChangeRangeSinceVersion s' (version s) = None"
    by (simp add: getTextChangeRangeSinceVersion_def)
qed


lemma libraryReading_simps:
  "readFileContents (libraryReading text) f = Inr text"
  "parseLineStarts (libraryReading text) c = [0]"
  "acceptsBounds (libraryReading text) a b = (0 \<le> a \<and> a \<le> b)"
  by (simp_all add: libraryReading_def)

lemma mutations_succeed:
  "list_all (accepted lib) ms \<Longrightarrow> \<exists>s'. mutations lib ms s = Some s'"
proof (induction ms arbitrary: s)
  case Nil
  then show ?case by simp
next
  case (Cons m ms)
  then have "accepted lib m" and rest: "list_all (accepted lib) ms" by simp_all
  then obtain s1 where "mutate lib m s = Some s1"
    by (cases m) (auto simp: addEdit_accepted)
  with Cons.IH [OF rest, of s1] show ?case by simp
qed

text \<open>
  C4: in every session of requests from the empty host, whatever succeeds or throws, no
  snapshot's change history is longer than \<open>maxChanges = 100\<close>; an edit that finds the
  history full empties it first, so that the new entry is the only one; and after 101
  successful edits of a new snapshot the history holds one entry, the version is 102,
  and the change range since version 0 (and since the version the snapshot started
  with) is \<open>null\<close>, a value and not an exception.
\<close>

theorem history_bounded:
  "(\<forall>f s. fileMap (session lib rs newLanguageServiceHost) f = Some s
       \<longrightarrow> length (changes s) \<le> 100 \<and> maxChanges s = 100)
   \<and> (maxChanges s0 \<le> length (changes s0) \<and> acceptsBounds lib offset (offset + len)
       \<longrightarrow> changes (snd (addEdit lib offset len t s0))
             = [\<lparr>spanStart = offset, spanEnd = offset + len, newLength = int (length t)\<rparr>])
   \<and> (newScriptSnapshot lib f0 = Inr s1 \<and> list_all isEdit ms \<and> length ms = 101
         \<and> mutations lib ms s1 = Some s2
       \<longrightarrow> length (changes s2) = 1 \<and> version s2 = 102
           \<and> getTextChangeRangeSinceVersion s2 0 = None
           \<and> getTextChangeRangeSinceVersion s2 (version s1) = None)"
proof (intro conjI)
  have "\<forall>f s. fileMap newLanguageServiceHost f = Some s
          \<longrightarrow> maxChanges s = 100 \<and> length (changes s) \<le> 100"
    by (simp add: newLanguageServiceHost_def)
  from session_bounded [OF this, of lib rs]
  show "\<forall>f s. fileMap (session lib rs newLanguageServiceHost) f = Some s
          \<longrightarrow> length (changes s) \<le> 100 \<and> maxChanges s = 100"
    by blast
next
  show "maxChanges s0 \<le> length (changes s0) \<and> acceptsBounds lib offset (offset + len)
       \<longrightarrow> changes (snd (addEdit lib offset len t s0))
             = [\<lparr>spanStart = offset, spanEnd = offset + len, newLength = int (length t)\<rparr>]"
    using overflow_clears by blast
next
  show "newScriptSnapshot lib f0 = Inr s1 \<and> list_all isEdit ms \<and> length ms = 101
         \<and> mutations lib ms s1 = Some s2
       \<longrightarrow> length (changes s2) = 1 \<and> version s2 = 102
           \<and> getTextChangeRangeSinceVersion s2 0 = None
           \<and> getTextChangeRangeSinceVersion s2 (version s1) = None"
    using hundred_and_one_edits by blast
qed

theorem history_bounded_witness:
  "fileMap (session (libraryReading ''abc'') [AddFile ''a.ts'', EditFile ''a.ts'' 0 0 ''x'']
              newLanguageServiceHost) ''a.ts''
     = Some ((snapshotOf ''xabc'')
               \<lparr>version := 2, changes := [\<lparr>spanStart = 0, spanEnd = 0, newLength = 1\<rparr>]\<rparr>)
   \<and> length [\<lparr>spanStart = 0, spanEnd = 0, newLength = 1\<rparr>] \<le> (100 :: nat)
   \<and> maxChanges ((snapshotOf ''abc'')\<lparr>changes := replicate 100 unchanged\<rparr>)
       \<le> length (changes ((snapshotOf ''abc'')\<lparr>changes := replicate 100 unchanged\<rparr>))
   \<and> acceptsBounds (libraryReading ''abc'') 0 (0 + 0)
   \<and> changes (snd (addEdit (libraryReading ''abc'') 0 0 ''x''
                     ((snapshotOf ''abc'')\<lparr>changes := replicate 100 unchanged\<rparr>)))
       = [\<lparr>spanStart = 0, spanEnd = 0, newLength = 1\<rparr>]
   \<and> (\<exists>s2. mutations (libraryReading ''abc'') (replicate 101 (Edit 0 0 ''x'')) (snapshotOf ''abc'')
               = Some s2
           \<and> length (changes s2) = 1 \<and> version s2 = 102
           \<and> getTextChangeRangeSinceVersion s2 0 = None)"
proof -
  let ?L = "libraryReading ''abc''"
  let ?rs = "[AddFile ''a.ts'', EditFile ''a.ts'' 0 0 ''x'']"
  let ?s0 = "(snapshotOf ''abc'')\<lparr>changes := replicate 100 unchanged\<rparr>"
  let ?ms = "replicate 101 (Edit 0 0 ''x'')"
  have acc: "acceptsBounds ?L 0 (0 + 0)"
    by (simp add: libraryReading_def)
  have run: "fileMap (session ?L ?rs newLanguageServiceHost) ''a.ts''
     = Some ((snapshotOf ''xabc'')
               \<lparr>version := 2, changes := [\<lparr>spanStart = 0, spanEnd = 0, newLength = 1\<rparr>]\<rparr>)"
    using acc
    by (simp add: addFile_def editFile_def newScriptSnapshot_sample newLanguageServiceHost_def
        addEdit_accepted snapshotOf_def clamp_def libraryReading_simps)
  have full: "maxChanges ?s0 \<le> length (changes ?s0)"
    by (simp add: snapshotOf_def)
  have "list_all (accepted ?L) ?ms"
    using acc by (simp add: list_all_iff)
  from mutations_succeed [OF this, of "snapshotOf ''abc''"]
  obtain s2 where s2: "mutations ?L ?ms (snapshotOf ''abc'') = Some s2" ..
  have edits: "list_all isEdit ?ms" "length ?ms = 101"
    by (simp_all add: list_all_iff)
  from history_bounded [where lib = ?L and rs = ?rs and ?s0.0 = ?s0 and offset = 0 and len = 0
      and t = "''x''" and ?f0.0 = "''a.ts''" and ?s1.0 = "snapshotOf ''abc''" and ms = ?ms
      and ?s2.0 = s2]
    run acc full s2 edits newScriptSnapshot_sample [of "''abc''"]
  show ?thesis by simp
qed

section \<open>Change ranges between versions\<close>

lemma mergeChange_delta:
  assumes "mergeChange (oldStart1, oldEnd1, newEnd1) c = (oldStartN, oldEndN, newEndN)"
  shows "newEndN - oldEndN = newEnd1 - oldEnd1 + netDelta c"
proof -
  from assms
  have e: "oldEndN = max oldEnd1 (oldEnd1 + (spanEnd c - newEnd1))"
    and n: "newEndN = max (spanStart c + newLength c)
                          (spanStart c + newLength c + (newEnd1 - spanEnd c))"
    by (simp_all add: Let_def)
  show ?thesis
  proof (cases "spanEnd c \<le> newEnd1")
    case True
    with e n show ?thesis by (simp add: netDelta_def max_def)
  next
    case False
    with e n show ?thesis by (simp add: netDelta_def max_def)
  qed
qed

lemma foldl_mergeChange_delta:
  assumes "foldl mergeChange (oldStart1, oldEnd1, newEnd1) cs = (oldStartN, oldEndN, newEndN)"
  shows "newEndN - oldEndN = newEnd1 - oldEnd1 + sum_list (map netDelta cs)"
  using assms
proof (induction cs arbitrary: oldStart1 oldEnd1 newEnd1)
  case Nil
  then show ?case by simp
next
  case (Cons c cs)
  obtain a b d where m: "mergeChange (oldStart1, oldEnd1, newEnd1) c = (a, b, d)"
    by (cases "mergeChange (oldStart1, oldEnd1, newEnd1) c") auto
  with Cons.prems have "foldl mergeChange (a, b, d) cs = (oldStartN, oldEndN, newEndN)"
    by simp
  from Cons.IH [OF this] mergeChange_delta [OF m] show ?case by simp
qed

lemma netDelta_collapse:
  "netDelta (collapseChangesAcrossMultipleVersions cs) = sum_list (map netDelta cs)"
proof (cases cs)
  case Nil
  then show ?thesis by (simp add: netDelta_def unchanged_def)
next
  case (Cons change0 rest)
  show ?thesis
  proof (cases rest)
    case Nil
    with Cons show ?thesis by simp
  next
    case (Cons c1 cs')
    obtain a b d
      where f: "foldl mergeChange
                  (spanStart change0, spanEnd change0, spanStart change0 + newLength change0) rest
                = (a, b, d)"
      using prod_cases3 by blast
    from foldl_mergeChange_delta [OF f]
    have "d - b = netDelta change0 + sum_list (map netDelta rest)"
      by (simp add: netDelta_def)
    with f Cons \<open>cs = change0 # rest\<close> show ?thesis
      by (simp add: netDelta_def)
  qed
qed

lemma slice_last:
  assumes "0 < k" and "k \<le> int (length xs)"
  shows "slice xs (int (length xs) - k) = drop (length xs - nat k) xs"
proof -
  from assms have "nat (int (length xs) - k) = length xs - nat k" by arith
  with assms show ?thesis by (simp add: slice_def Let_def min.absorb1)
qed

lemma slice_past_end: "int (length xs) \<le> start \<Longrightarrow> slice xs start = []"
  by (simp add: slice_def Let_def min.absorb2)

lemma changeRange_same_version:
  "getTextChangeRangeSinceVersion s (version s) = Some unchanged"
  by (simp add: getTextChangeRangeSinceVersion_def)

lemma changeRange_in_window:
  assumes "0 < version s - v" and "version s - v \<le> int (length (changes s))"
  shows "getTextChangeRangeSinceVersion s v
           = Some (collapseChangesAcrossMultipleVersions
                     (drop (length (changes s) - nat (version s - v)) (changes s)))"
    and "netDelta (collapseChangesAcrossMultipleVersions
                     (drop (length (changes s) - nat (version s - v)) (changes s)))
           = sum_list (map netDelta (drop (length (changes s) - nat (version s - v)) (changes s)))"
  using assms
  by (simp_all add: getTextChangeRangeSinceVersion_def Let_def slice_last netDelta_collapse)

lemma changeRange_outside_window:
  assumes "int (length (changes s)) < version s - v"
  shows "getTextChangeRangeSinceVersion s v = None"
  using assms by (auto simp: getTextChangeRangeSinceVersion_def)

lemma changeRange_later_version:
  assumes "version s < v"
  shows "getTextChangeRangeSinceVersion s v = Some unchanged"
proof -
  from assms have "int (length (changes s)) \<le> int (length (changes s)) - (version s - v)"
    by simp
  from slice_past_end [OF this] assms show ?thesis
    by (simp add: getTextChangeRangeSinceVersion_def Let_def)
qed

text \<open>
  C3 holds for the versions up to the current one (\<open>changeRange_same_version\<close>,
  \<open>changeRange_in_window\<close> with \<open>netDelta_collapse\<close>, \<open>changeRange_outside_window\<close>), but
  not for a version after the current one (\<open>changeRange_later_version\<close>): the difference
  is negative, the test \<^verbatim>\<open>this.version - version <= this.changes.length\<close> passes, the
  slice starts past the end and is empty, and the answer is the collapse of no change at
  all, "no change", where C3 has \<open>null\<close>. Here the snapshot is new, at version 1, and
  the version asked about is 2.
\<close>

theorem later_version_reports_unchanged:
  "version (snapshotOf ''abc'') = 1
   \<and> getTextChangeRangeSinceVersion (snapshotOf ''abc'') 2
       = Some (collapseChangesAcrossMultipleVersions [])
   \<and> getTextChangeRangeSinceVersion (snapshotOf ''abc'') 2 = Some unchanged
   \<and> getTextChangeRangeSinceVersion (snapshotOf ''abc'') 2 \<noteq> None"
  by (simp add: getTextChangeRangeSinceVersion_def snapshotOf_def slice_def)

section \<open>Identifier characters\<close>

lemma char_eq_code: "(c = d) = ((of_char c :: nat) = of_char d)"
  by simp

lemma str_le_single: "str_le [a] [b] = (a \<le> b)"
  by auto

lemma validMethodChar_upper_single:
  assumes "toUpperCase u = [m]"
  shows "validMethodChar (Some u)
           = Inr ((65 \<le> m \<and> m \<le> 90) \<or> m = 40 \<or> m = 41 \<or> (48 \<le> m \<and> m \<le> 57)
                  \<or> m = 36 \<or> m = 95)"
  by (auto simp: validMethodChar_def assms units_def str_le_single Let_def)

lemma validMethodChar_sharp_s: "validMethodChar (Some [CHR 0xDF]) = Inr True"
  by (simp add: validMethodChar_def toUpperCase_def upperUnit_def units_def)

lemma validMethodChar_single: "validMethodChar (Some [c]) = Inr (isMethodChar c)"
proof -
  define n where "n = (of_char c :: nat)"
  have eqs: "(c = CHR ''('') = (n = 40)" "(c = CHR '')'') = (n = 41)" "(c = CHR ''$'') = (n = 36)"
    "(c = CHR ''_'') = (n = 95)" "(c = CHR 0xDF) = (n = 223)"
    by (simp_all add: n_def char_eq_code)
  have cls: "isMethodChar c =
      ((65 \<le> n \<and> n \<le> 90) \<or> (97 \<le> n \<and> n \<le> 122) \<or> (48 \<le> n \<and> n \<le> 57)
         \<or> n = 40 \<or> n = 41 \<or> n = 36 \<or> n = 95 \<or> n = 223)"
    by (simp add: isMethodChar_def isIdentifierChar_def Let_def eqs flip: n_def)
  have up: "upperUnit c =
      (if 97 \<le> n \<and> n \<le> 122 then [n - 32]
         else if n = 181 then [924]
         else if n = 223 then [83, 83]
         else if (224 \<le> n \<and> n \<le> 246) \<or> (248 \<le> n \<and> n \<le> 254) then [n - 32]
         else if n = 255 then [376]
         else [n])"
    by (simp add: upperUnit_def n_def Let_def)
  consider (lower) "97 \<le> n" "n \<le> 122"
    | (micro) "n = 181"
    | (sharp) "n = 223"
    | (latin) "(224 \<le> n \<and> n \<le> 246) \<or> (248 \<le> n \<and> n \<le> 254)"
    | (y) "n = 255"
    | (same) "\<not> (97 \<le> n \<and> n \<le> 122)" "n \<noteq> 181" "n \<noteq> 223"
        "\<not> ((224 \<le> n \<and> n \<le> 246) \<or> (248 \<le> n \<and> n \<le> 254))" "n \<noteq> 255"
    by blast
  then show ?thesis
  proof cases
    case lower
    then have u: "toUpperCase [c] = [n - 32]"
      by (simp add: toUpperCase_def up)
    from lower have "65 \<le> n - 32 \<and> n - 32 \<le> 90" by arith
    with validMethodChar_upper_single [OF u] lower show ?thesis
      unfolding cls by simp
  next
    case micro
    then have "toUpperCase [c] = [924]"
      by (simp add: toUpperCase_def up)
    from validMethodChar_upper_single [OF this] micro show ?thesis
      unfolding cls by simp
  next
    case sharp
    then have "c = CHR 0xDF" by (simp add: eqs)
    with validMethodChar_sharp_s sharp show ?thesis
      unfolding cls by simp
  next
    case latin
    then have far: "122 < n" "n \<noteq> 181" "n \<noteq> 223" "191 < n - 32"
      by arith+
    with latin have "toUpperCase [c] = [n - 32]"
      by (simp add: toUpperCase_def up)
    from validMethodChar_upper_single [OF this] far show ?thesis
      unfolding cls by simp
  next
    case y
    then have "toUpperCase [c] = [376]"
      by (simp add: toUpperCase_def up)
    from validMethodChar_upper_single [OF this] y show ?thesis
      unfolding cls by simp
  next
    case same
    then have "upperUnit c = [n]"
      unfolding up by (simp only: if_False)
    then have "toUpperCase [c] = [n]"
      by (simp add: toUpperCase_def)
    from validMethodChar_upper_single [OF this] same(1,3) show ?thesis
      unfolding cls by (simp only: simp_thms) blast
  qed
qed

lemma validMethodChar_empty: "validMethodChar (Some []) = Inr False"
  by (simp add: validMethodChar_def toUpperCase_def units_def)

section \<open>Position validity\<close>

lemma hostWith_fileMap: "fileMap (hostWith f text) f = Some ((snapshotOf text)\<lparr>filePath := f\<rparr>)"
  by (simp add: hostWith_def addFile_def newScriptSnapshot_def libraryReading_simps
      updateContent_def snapshotOf_def newLanguageServiceHost_def)

lemma index_nth: "0 \<le> i \<Longrightarrow> i < int (length s) \<Longrightarrow> index s i = Some [s ! nat i]"
  by (simp add: index_def)

lemma index_None: "int (length s) \<le> i \<Longrightarrow> index s i = None"
  by (simp add: index_def)

lemma validPosition_zero: "validPosition h f 0 = Inr False"
  by (simp add: validPosition_def)

text \<open>Position 1: the snapshot read is at most one character long, and \<open>snapshot[1]\<close> is undefined.\<close>

lemma validPosition_one:
  assumes "fileMap h f = Some s"
  shows "validPosition h f 1 = Inl TypeError"
proof -
  have "length (getText s (- 1) 1) \<le> 1"
    by (simp add: getText_def substring_clamped clamp_def)
  then have "index (getText s (- 1) 1) 1 = None"
    by (simp add: index_None)
  with assms show ?thesis
    by (simp add: validPosition_def getScriptSnapshot_def validMethodChar_def)
qed

lemma validPosition_inside:
  assumes "fileMap h f = Some s" and "2 \<le> p" and "p \<le> int (length (content s))"
  shows "validPosition h f p
           = Inr (specValid isMethodChar (content s ! nat (p - 2)) (content s ! nat (p - 1)))"
proof -
  define t where "t = content s"
  from assms(2,3) have c: "clamp t p = nat p" "clamp t (p - 2) = nat p - 2"
    by (simp_all add: clamp_inside t_def nat_diff_distrib')
  from assms(2) have "p - 2 \<le> p" by simp
  moreover from assms(2) have "nat p - (nat p - 2) = 2" by arith
  ultimately have g: "getText s (p - 2) p = take 2 (drop (nat p - 2) t)"
    using c by (simp add: getText_def substring_ordered flip: t_def)
  from assms(2,3) have len: "nat p - 2 + 2 \<le> length t"
    by (simp add: t_def)
  then have l2: "length (take 2 (drop (nat p - 2) t)) = 2" by simp
  from len have n0: "take 2 (drop (nat p - 2) t) ! 0 = t ! (nat p - 2)"
    and n1: "take 2 (drop (nat p - 2) t) ! 1 = t ! (nat p - 2 + 1)"
    by simp_all
  from assms(2) have i: "nat (p - 2) = nat p - 2" "nat (p - 1) = nat p - 2 + 1"
    by arith+
  have i0: "index (getText s (p - 2) p) 0 = Some [t ! nat (p - 2)]"
    using l2 n0 by (simp add: g index_def i)
  have i1: "index (getText s (p - 2) p) 1 = Some [t ! nat (p - 1)]"
    using l2 n1 by (simp add: g index_def i)
  from assms(1,2) show ?thesis
    by (simp add: validPosition_def getScriptSnapshot_def i0 i1 validMethodChar_single
        specValid_def flip: t_def)
qed

lemma validPosition_outside:
  assumes "fileMap h f = Some s" and "p \<noteq> 0" and "p < 2 \<or> int (length (content s)) < p"
  shows "validPosition h f p = Inl TypeError"
proof -
  define t where "t = content s"
  have "clamp t p \<le> clamp t (p - 2) + 1"
  proof (cases "p < 2")
    case True
    then have "clamp t p \<le> 1" by (simp add: clamp_def)
    then show ?thesis by simp
  next
    case False
    with assms(3) have big: "int (length t) < p" by (simp add: t_def)
    then have "clamp t p = length t" by (simp add: clamp_length)
    moreover from big False have "length t - 1 \<le> clamp t (p - 2)"
      by (simp add: clamp_def)
    ultimately show ?thesis by simp
  qed
  then have "length (getText s (p - 2) p) \<le> 1"
    by (simp add: getText_def substring_ordered flip: t_def)
  then have "index (getText s (p - 2) p) 1 = None"
    by (simp add: index_None)
  with assms(1,2) show ?thesis
    by (simp add: validPosition_def getScriptSnapshot_def validMethodChar_def)
qed

text \<open>
  C5 holds at position 0 (\<open>validPosition_zero\<close>) and at the positions from 2 to the
  length of the text (\<open>validPosition_inside\<close>), but not at position 1. There
  \<open>getText(-1, 1)\<close> is clamped to the first character alone, so \<open>snapshot[1]\<close>, which
  the code takes for the character before the cursor, is \<open>undefined\<close>, and
  \<^verbatim>\<open>validMethodChar(undefined)\<close> raises a \<open>TypeError\<close> on \<open>toUpperCase\<close>: the one-character
  text with the cursor after it throws, whether the character is an identifier
  character or not, where C5 has an ordinary "invalid".
\<close>

theorem validPosition_first_character_throws:
  "validPosition (hostWith ''a.ts'' ''-'') ''a.ts'' 1 = Inl TypeError
   \<and> validPosition (hostWith ''a.ts'' ''x'') ''a.ts'' 1 = Inl TypeError"
  by (simp add: validPosition_one hostWith_fileMap)

section \<open>Prefix extraction\<close>

lemma charAt_negative: "i < 0 \<Longrightarrow> charAt s i = []"
  by (simp add: charAt_def)

lemma charAt_append_length: "charAt (ys @ y # zs) (int (length ys)) = [y]"
  by (simp add: charAt_def)

lemma scanBack_split:
  "scanBack (ys @ zs) (int (length ys) - 1)
     = Inr (int (length (dropWhile isMethodChar (rev ys))) - 1)"
proof (induction ys arbitrary: zs rule: rev_induct)
  case Nil
  show ?case
    by (subst scanBack.simps) (simp add: charAt_negative validMethodChar_empty)
next
  case (snoc y ys)
  have "scanBack ((ys @ [y]) @ zs) (int (length (ys @ [y])) - 1)
          = scanBack (ys @ y # zs) (int (length ys))"
    by simp
  also have "\<dots> = (if isMethodChar y then scanBack (ys @ y # zs) (int (length ys) - 1)
                     else Inr (int (length ys)))"
    by (subst scanBack.simps) (simp add: charAt_append_length validMethodChar_single)
  also have "\<dots> = Inr (int (length (dropWhile isMethodChar (rev (ys @ [y])))) - 1)"
    by (simp add: snoc.IH)
  finally show ?case .
qed

lemma getPrefix_clamped:
  assumes "fileMap h f = Some s"
  shows "getPrefix h f p
           = Inr (specPrefix isMethodChar (take (clamp (content s) p) (content s)))"
proof -
  define xs where "xs = take (clamp (content s) p) (content s)"
  define run where "run = takeWhile isMethodChar (rev xs)"
  define rest where "rest = dropWhile isMethodChar (rev xs)"
  have snap: "getText s 0 p = xs"
    by (simp add: getText_def substring_prefix xs_def)
  from scanBack_split [of xs "[]"]
  have scan: "scanBack xs (int (length xs) - 1) = Inr (int (length rest) - 1)"
    by (simp add: rest_def)
  have split: "xs = rev rest @ rev run"
  proof -
    have "rev xs = run @ rest" by (simp add: run_def rest_def)
    then have "rev (rev xs) = rev (run @ rest)" by (rule arg_cong)
    then show ?thesis by simp
  qed
  show ?thesis
  proof (cases rest)
    case Nil
    with assms show ?thesis
      by (simp add: getPrefix_def getScriptSnapshot_def snap scan charAt_negative specPrefix_def
          flip: xs_def rest_def)
  next
    case (Cons b before)
    with split have xs: "xs = rev before @ b # rev run" by simp
    have at: "charAt xs (int (length before)) = [b]"
      using charAt_append_length [of "rev before" b "rev run"] xs by simp
    have "nat (int (length before) + 1) = Suc (length before)"
      by simp
    moreover have "clamp xs (int (length before) + 1) = nat (int (length before) + 1)"
      by (rule clamp_inside) (simp_all add: xs)
    ultimately have "clamp xs (int (length before) + 1) = Suc (length before)"
      by simp
    then have tail: "substring xs (int (length before) + 1) (int (length xs)) = rev run"
      by (simp add: substring_suffix) (simp add: xs)
    from assms Cons show ?thesis
      by (simp add: getPrefix_def getScriptSnapshot_def snap scan at tail specPrefix_def
          flip: xs_def rest_def run_def)
  qed
qed

lemma specPrefix_cong:
  assumes "\<And>c. c \<in> set text \<Longrightarrow> P c = Q c"
  shows "specPrefix P text = specPrefix Q text"
proof -
  from assms have "\<And>c. c \<in> set (rev text) \<Longrightarrow> P c = Q c" by simp
  then have "takeWhile P (rev text) = takeWhile Q (rev text)"
    and "dropWhile P (rev text) = dropWhile Q (rev text)"
    by (auto intro: takeWhile_cong dropWhile_cong)
  then show ?thesis unfolding specPrefix_def by (simp only:)
qed

text \<open>
  Inside the text the prefix is found by scanning backward from the position over the
  characters \<open>validMethodChar\<close> accepts: when the character that ends the scan is a
  dot, a space or a newline, the prefix is the run after it, and otherwise (start of the
  text, any other character) it is empty. For a text without the sharp s the characters
  scanned over are the identifier characters of the specification; \<open>object.pr\<close> gives
  \<open>pr\<close> and \<open>foo bar\<close> gives \<open>bar\<close>.
\<close>

lemma getPrefix_scans_back:
  assumes "fileMap h f = Some s" and "0 \<le> p" and "p \<le> int (length (content s))"
  shows "getPrefix h f p = Inr (specPrefix isMethodChar (take (nat p) (content s)))
       \<and> (CHR 0xDF \<notin> set (content s)
           \<longrightarrow> getPrefix h f p = Inr (specPrefix isIdentifierChar (take (nat p) (content s))))"
proof -
  from assms(2,3) have "clamp (content s) p = nat p" by (rule clamp_inside)
  with getPrefix_clamped [OF assms(1), of p]
  have g: "getPrefix h f p = Inr (specPrefix isMethodChar (take (nat p) (content s)))"
    by simp
  have "specPrefix isMethodChar (take (nat p) (content s))
          = specPrefix isIdentifierChar (take (nat p) (content s))"
    if "CHR 0xDF \<notin> set (content s)"
  proof (rule specPrefix_cong)
    fix c assume "c \<in> set (take (nat p) (content s))"
    then have "c \<in> set (content s)" by (rule in_set_takeD)
    with that have "c \<noteq> CHR 0xDF" by blast
    then show "isMethodChar c = isIdentifierChar c" by (simp add: isMethodChar_def)
  qed
  with g show ?thesis by simp
qed

lemma getPrefix_examples:
  "fileMap (hostWith ''a.ts'' ''object.pr'') ''a.ts'' = Some (snapshotOf ''object.pr'')
   \<and> (0 :: int) \<le> 9 \<and> (9 :: int) \<le> int (length (content (snapshotOf ''object.pr'')))
   \<and> CHR 0xDF \<notin> set (content (snapshotOf ''object.pr''))
   \<and> specPrefix isIdentifierChar (take (nat 9) ''object.pr'') = ''pr''
   \<and> getPrefix (hostWith ''a.ts'' ''object.pr'') ''a.ts'' 9 = Inr ''pr''
   \<and> fileMap (hostWith ''a.ts'' ''foo bar'') ''a.ts'' = Some (snapshotOf ''foo bar'')
   \<and> getPrefix (hostWith ''a.ts'' ''foo bar'') ''a.ts'' 7 = Inr ''bar''"
proof -
  have h1: "fileMap (hostWith ''a.ts'' ''object.pr'') ''a.ts'' = Some (snapshotOf ''object.pr'')"
    and h2: "fileMap (hostWith ''a.ts'' ''foo bar'') ''a.ts'' = Some (snapshotOf ''foo bar'')"
    by (simp_all add: hostWith_fileMap snapshotOf_def)
  have c1: "content (snapshotOf ''object.pr'') = ''object.pr''"
    and c2: "content (snapshotOf ''foo bar'') = ''foo bar''"
    by (simp_all add: snapshotOf_def)
  have b1: "(0 :: int) \<le> 9" "(9 :: int) \<le> int (length (content (snapshotOf ''object.pr'')))"
    and b2: "(0 :: int) \<le> 7" "(7 :: int) \<le> int (length (content (snapshotOf ''foo bar'')))"
    by (simp_all add: c1 c2)
  have n: "CHR 0xDF \<notin> set (content (snapshotOf ''object.pr''))"
    "CHR 0xDF \<notin> set (content (snapshotOf ''foo bar''))"
    by (simp_all add: c1 c2)
  have e1: "specPrefix isIdentifierChar (take (nat 9) ''object.pr'') = ''pr''"
    and e2: "specPrefix isIdentifierChar (take (nat 7) ''foo bar'') = ''bar''"
    by (simp_all add: specPrefix_def isIdentifierChar_def)
  from getPrefix_scans_back [OF h1 b1, THEN conjunct2, rule_format, OF n(1)]
    getPrefix_scans_back [OF h2 b2, THEN conjunct2, rule_format, OF n(2)] n e1 e2 h1 h2 b1
  show ?thesis by (simp add: c1 c2)
qed

text \<open>
  C6 does not hold of the code on a character outside ASCII. \<open>validMethodChar\<close> tests
  for letters by \<^verbatim>\<open>"A" <= c && c <= "Z"\<close> on the upper case of the character; the upper
  case of the sharp s is \<open>SS\<close>, which lies between \<open>A\<close> and \<open>Z\<close> in string order, so the
  sharp s passes for a letter. On the text of a dot and a sharp s, with the cursor at
  the end, the code scans over the sharp s and returns it as the prefix; by C6 the sharp
  s, which is no identifier character, ends the scan at once and the prefix is empty.
\<close>

theorem sharp_s_taken_for_a_letter:
  "validMethodChar (Some [CHR 0xDF]) = Inr True
   \<and> isIdentifierChar (CHR 0xDF) = False
   \<and> getPrefix (hostWith ''a.ts'' [CHR ''.'', CHR 0xDF]) ''a.ts'' 2 = Inr [CHR 0xDF]
   \<and> specPrefix isIdentifierChar (take 2 [CHR ''.'', CHR 0xDF]) = []"
  by (simp add: validMethodChar_sharp_s getPrefix_clamped hostWith_fileMap snapshotOf_def
      clamp_def specPrefix_def isMethodChar_def isIdentifierChar_def)

section \<open>Pruning the completions\<close>

lemma indexOfFrom_range: "0 \<le> k \<Longrightarrow> indexOfFrom s p k = - 1 \<or> k \<le> indexOfFrom s p k"
proof (induction s arbitrary: k)
  case Nil
  then show ?case by simp
next
  case (Cons c cs)
  from Cons.prems have "0 \<le> k + 1" by simp
  from Cons.IH [OF this] show ?case by auto
qed

lemma prefixMatch_iff_prefix: "prefixMatch p str = prefix p str"
proof (cases str)
  case Nil
  then show ?thesis by (simp add: prefixMatch_def indexOf_def)
next
  case (Cons c cs)
  have "indexOfFrom cs p 1 \<noteq> 0"
    using indexOfFrom_range [of 1 cs p] by auto
  moreover have "(take (length p) str = p) = prefix p str"
    by (metis take_is_prefix prefix_def append_eq_conv_conj)
  ultimately show ?thesis
    using Cons by (simp add: prefixMatch_def indexOf_def)
qed

lemma pruneLoop_filter:
  "pruneLoop p rawEntries prunedEntries
     = prunedEntries @ filter (\<lambda>e. prefix p (name e)) rawEntries"
  by (induction rawEntries arbitrary: prunedEntries) (simp_all add: prefixMatch_iff_prefix)

lemma detailLoop_all:
  assumes "\<And>e. e \<in> set es \<Longrightarrow> ls_getCompletionEntryDetails ls f p (name e) = Inr (d (name e))"
  shows "detailLoop ls f p es acc calls
           = (calls @ map (\<lambda>e. CompletionEntryDetails f p (name e)) es,
              Inr (acc @ map (\<lambda>e. d (name e)) es))"
  using assms by (induction es arbitrary: acc calls) simp_all

text \<open>
  C7: when the service answers with raw entries, the entries kept are exactly those
  whose name has the prefix as an initial segment, compared code unit by code unit, in
  the order of the answer; the empty prefix keeps them all; and the result of the
  completion lists the details of the entries kept, in that order, under the prefix.
\<close>

theorem prefix_filter:
  assumes "ls_getCompletionsAtPosition ls f p False = Inr (Some rawEntries)"
  shows "snd (getExplicitPrunedCompletionsAtPosition ls f p pre)
           = Inr (Some (filter (\<lambda>e. prefix pre (name e)) rawEntries))
       \<and> snd (getExplicitPrunedCompletionsAtPosition ls f p []) = Inr (Some rawEntries)
       \<and> ((\<forall>e \<in> set rawEntries. ls_getCompletionEntryDetails ls f p (name e) = Inr (d (name e)))
           \<longrightarrow> snd (getDetailedExplicitPrunedCompletionsAtPosition ls f p pre)
               = Inr \<lparr>pruningPrefix = pre,
                      entries = map (\<lambda>e. d (name e)) (filter (\<lambda>e. prefix pre (name e)) rawEntries)\<rparr>)"
proof -
  have a: "getExplicitPrunedCompletionsAtPosition ls f p q
           = ([CompletionsAtPosition f p False],
              Inr (Some (filter (\<lambda>e. prefix q (name e)) rawEntries)))" for q
    using assms by (simp add: getExplicitPrunedCompletionsAtPosition_def pruneLoop_filter)
  have b: "snd (getDetailedExplicitPrunedCompletionsAtPosition ls f p pre)
               = Inr \<lparr>pruningPrefix = pre,
                      entries = map (\<lambda>e. d (name e)) (filter (\<lambda>e. prefix pre (name e)) rawEntries)\<rparr>"
    if "\<forall>e \<in> set rawEntries. ls_getCompletionEntryDetails ls f p (name e) = Inr (d (name e))"
  proof -
    have "detailLoop ls f p (filter (\<lambda>e. prefix pre (name e)) rawEntries) []
            [CompletionsAtPosition f p False]
          = ([CompletionsAtPosition f p False]
               @ map (\<lambda>e. CompletionEntryDetails f p (name e))
                   (filter (\<lambda>e. prefix pre (name e)) rawEntries),
             Inr ([] @ map (\<lambda>e. d (name e)) (filter (\<lambda>e. prefix pre (name e)) rawEntries)))"
      by (rule detailLoop_all) (use that in simp)
    then show ?thesis
      by (simp add: getDetailedExplicitPrunedCompletionsAtPosition_def a)
  qed
  from a b show ?thesis by simp
qed

theorem prefix_filter_witness:
  "ls_getCompletionsAtPosition
     (answering (Some [\<lparr>name = ''print''\<rparr>, \<lparr>name = ''process''\<rparr>, \<lparr>name = ''foo''\<rparr>]))
     ''a.ts'' 9 False
     = Inr (Some [\<lparr>name = ''print''\<rparr>, \<lparr>name = ''process''\<rparr>, \<lparr>name = ''foo''\<rparr>])
   \<and> snd (getExplicitPrunedCompletionsAtPosition
            (answering (Some [\<lparr>name = ''print''\<rparr>, \<lparr>name = ''process''\<rparr>, \<lparr>name = ''foo''\<rparr>]))
            ''a.ts'' 9 ''pr'')
     = Inr (Some [\<lparr>name = ''print''\<rparr>, \<lparr>name = ''process''\<rparr>])
   \<and> snd (getExplicitPrunedCompletionsAtPosition
            (answering (Some [\<lparr>name = ''print''\<rparr>, \<lparr>name = ''process''\<rparr>, \<lparr>name = ''foo''\<rparr>]))
            ''a.ts'' 9 [])
     = Inr (Some [\<lparr>name = ''print''\<rparr>, \<lparr>name = ''process''\<rparr>, \<lparr>name = ''foo''\<rparr>])
   \<and> snd (getDetailedExplicitPrunedCompletionsAtPosition
            (answering (Some [\<lparr>name = ''print''\<rparr>, \<lparr>name = ''process''\<rparr>, \<lparr>name = ''foo''\<rparr>]))
            ''a.ts'' 9 ''pr'')
     = Inr \<lparr>pruningPrefix = ''pr'', entries = [''print'', ''process'']\<rparr>"
proof -
  let ?raw = "[\<lparr>name = ''print''\<rparr>, \<lparr>name = ''process''\<rparr>, \<lparr>name = ''foo''\<rparr>]"
  have q: "ls_getCompletionsAtPosition (answering (Some ?raw)) ''a.ts'' 9 False = Inr (Some ?raw)"
    by (simp add: answering_def)
  have d: "\<forall>e \<in> set ?raw.
      ls_getCompletionEntryDetails (answering (Some ?raw)) ''a.ts'' 9 (name e) = Inr (name e)"
    by (simp add: answering_def)
  from prefix_filter [OF q, of "''pr''" "\<lambda>n. n"] q d show ?thesis
    by simp
qed

lemma no_raw_completions:
  assumes "validPosition h f p = Inr True" and "getPrefix h f p = Inr pre"
    and "\<not> knownToBreak pre" and "ls_getCompletionsAtPosition ls f p False = Inr None"
  shows "getCompletionsAtPosition ls h f p
           = ([CompletionsAtPosition f p False], Inr \<lparr>pruningPrefix = pre, entries = []\<rparr>)"
  using assms
  by (simp add: getCompletionsAtPosition_def getDetailedImplicitlyPrunedCompletionsAtPosition_def
      getDetailedExplicitPrunedCompletionsAtPosition_def getExplicitPrunedCompletionsAtPosition_def)

lemma invalid_position_empty:
  assumes "validPosition h f p = Inr False"
  shows "getCompletionsAtPosition ls h f p = ([], Inr \<lparr>pruningPrefix = [], entries = []\<rparr>)"
  using assms
  by (simp add: getCompletionsAtPosition_def getDetailedImplicitlyPrunedCompletionsAtPosition_def)

text \<open>
  C8: at a valid position whose prefix is exactly \<open>$\<close>, \<open>getCompletionsAtPosition\<close>
  returns the prefix \<open>$\<close> with no entries and has made no call into the language
  service, whatever the service is (one that throws on every call included).
\<close>

theorem dollar_prefix_short_circuit:
  assumes "validPosition h f p = Inr True" and "getPrefix h f p = Inr ''$''"
  shows "getCompletionsAtPosition ls h f p = ([], Inr \<lparr>pruningPrefix = ''$'', entries = []\<rparr>)"
  using assms
  by (simp add: getCompletionsAtPosition_def getDetailedImplicitlyPrunedCompletionsAtPosition_def
      knownToBreak_def)

theorem dollar_prefix_short_circuit_witness:
  "validPosition (hostWith ''a.ts'' ''a $'') ''a.ts'' 3 = Inr True
   \<and> getPrefix (hostWith ''a.ts'' ''a $'') ''a.ts'' 3 = Inr ''$''
   \<and> getCompletionsAtPosition failingService (hostWith ''a.ts'' ''a $'') ''a.ts'' 3
       = ([], Inr \<lparr>pruningPrefix = ''$'', entries = []\<rparr>)
   \<and> getCompletionsAtPosition (answering (Some [\<lparr>name = ''$scope''\<rparr>]))
         (hostWith ''a.ts'' ''a $'') ''a.ts'' 3
       = ([], Inr \<lparr>pruningPrefix = ''$'', entries = []\<rparr>)"
proof -
  have h: "fileMap (hostWith ''a.ts'' ''a $'') ''a.ts'' = Some (snapshotOf ''a $'')"
    by (simp add: hostWith_fileMap snapshotOf_def)
  have c: "content (snapshotOf ''a $'') = ''a $''"
    by (simp add: snapshotOf_def)
  have v: "validPosition (hostWith ''a.ts'' ''a $'') ''a.ts'' 3 = Inr True"
    by (simp add: validPosition_inside [OF h] c specValid_def isMethodChar_def isIdentifierChar_def)
  have g: "getPrefix (hostWith ''a.ts'' ''a $'') ''a.ts'' 3 = Inr ''$''"
    by (simp add: getPrefix_clamped [OF h] c clamp_def specPrefix_def isMethodChar_def
        isIdentifierChar_def)
  from dollar_prefix_short_circuit [OF v g, of failingService]
    dollar_prefix_short_circuit [OF v g, of "answering (Some [\<lparr>name = ''$scope''\<rparr>])"] v g
  show ?thesis by simp
qed

text \<open>
  C9 does not hold of the code: when the service answers \<open>null\<close>, the result has no
  entries, but its prefix is the prefix computed from the text, not the empty string.
  \<open>getExplicitPrunedCompletionsAtPosition\<close> turns the \<open>null\<close> answer into an empty list
  of entries, so the test \<^verbatim>\<open>entries === null\<close> of its caller, the branch that returns the
  empty prefix, is never taken. Here the text is \<open>foo bar\<close>, the cursor is at its end and
  the service has no completions.
\<close>

theorem no_completions_keeps_prefix:
  "getCompletionsAtPosition (answering None) (hostWith ''a.ts'' ''foo bar'') ''a.ts'' 7
     = ([CompletionsAtPosition ''a.ts'' 7 False], Inr \<lparr>pruningPrefix = ''bar'', entries = []\<rparr>)"
proof -
  have h: "fileMap (hostWith ''a.ts'' ''foo bar'') ''a.ts'' = Some (snapshotOf ''foo bar'')"
    by (simp add: hostWith_fileMap snapshotOf_def)
  have c: "content (snapshotOf ''foo bar'') = ''foo bar''"
    by (simp add: snapshotOf_def)
  have v: "validPosition (hostWith ''a.ts'' ''foo bar'') ''a.ts'' 7 = Inr True"
    by (simp add: validPosition_inside [OF h] c specValid_def isMethodChar_def isIdentifierChar_def)
  have g: "getPrefix (hostWith ''a.ts'' ''foo bar'') ''a.ts'' 7 = Inr ''bar''"
    by (simp add: getPrefix_clamped [OF h] c clamp_def specPrefix_def isMethodChar_def
        isIdentifierChar_def)
  have k: "\<not> knownToBreak ''bar''"
    by (simp add: knownToBreak_def)
  have n: "ls_getCompletionsAtPosition (answering None) ''a.ts'' 7 False = Inr None"
    by (simp add: answering_def)
  from no_raw_completions [OF v g k n] show ?thesis .
qed

end
